theory Spec2Isabelle
  imports Main
begin

section \<open>Data model\<close>

text \<open>
  Strings are lists of code units (\<open>char\<close>), so \<open>length\<close> is the source's \<open>.length\<close>
  on texts whose code units fit a \<open>char\<close>. Offsets, lines and columns are JavaScript
  numbers that only ever hold integers here, so they are \<open>int\<close>; the one non-integer
  that arises, \<open>NaN\<close> (an addition on \<open>undefined\<close>), is a value of its own.
\<close>

datatype offset = NaN | Off int

text \<open>
  A value handed to a \<open>shouldReport\<close> callback: \<open>undefined\<close>, a number or a string
  (\<open>source: string | undefined, code: string | number | undefined\<close>).
\<close>

datatype jsval = JUndefined | JNum int | JStr string

text \<open>A \<open>symbol\<close>: a unique identity and its description (\<open>Symbol(source)\<close>).\<close>

datatype symbol = Symbol nat string

text \<open>
  \<open>verification?: boolean | { shouldReport?: (source, code) => boolean }\<close>:
  the field of \<open>CodeInformation\<close> is absent (\<open>None\<close>), a boolean, or an object whose
  \<open>shouldReport\<close> is itself optional.
\<close>

datatype verification = VBool bool | VObject "(jsval \<Rightarrow> jsval \<Rightarrow> bool) option"

record codeInformation =
  verification :: "verification option"
  combineToken :: "symbol option"

text \<open>
  \<open>Code = Segment<CodeInformation>\<close>: a plain string, or the tuple
  \<open>[text, source, sourceOffset, data]\<close>.
\<close>

datatype code = Lit string | Seg string "string option" int codeInformation

text \<open>\<open>Mapping<CodeInformation>\<close>: three parallel arrays and the data of the fragment.\<close>

record mapping =
  sourceOffsets :: "int list"
  generatedOffsets :: "int list"
  lengths :: "int list"
  data :: codeInformation

section \<open>Line and offset index (createOffsetGetter, createLineAndColumnGetter)\<close>

text \<open>
  Both getters start with the same loop: \<open>lineOffsets = [0]\<close>, then \<open>i + 1\<close> is pushed
  for every \<open>i\<close> with \<open>text[i] === "\n"\<close>.
\<close>

fun lineOffsetsFrom :: "nat \<Rightarrow> string \<Rightarrow> int list" where
  "lineOffsetsFrom i [] = []"
| "lineOffsetsFrom i (c # cs) =
     (if c = CHR 0x0A then (int i + 1) # lineOffsetsFrom (Suc i) cs
      else lineOffsetsFrom (Suc i) cs)"

definition lineOffsets :: "string \<Rightarrow> int list" where
  "lineOffsets text = 0 # lineOffsetsFrom 0 text"

text \<open>
  \<open>(line, column) => lineOffsets[line - 1] + column - 1\<close>. An index outside the array
  reads \<open>undefined\<close>, and \<open>undefined + column - 1\<close> is \<open>NaN\<close>.
\<close>

definition createOffsetGetter :: "string \<Rightarrow> int \<Rightarrow> int \<Rightarrow> offset" where
  "createOffsetGetter text line column =
     (let lo = lineOffsets text in
      if 1 \<le> line \<and> line - 1 < int (length lo)
      then Off (lo ! nat (line - 1) + column - 1)
      else NaN)"

text \<open>
  The loop of the line-and-column getter over the entries \<open>lineOffsets[i..]\<close>:
  \<open>if (lineOffsets[i] > offset) break; line = i\<close>.
\<close>

fun scanLine :: "int list \<Rightarrow> int \<Rightarrow> nat \<Rightarrow> nat \<Rightarrow> nat" where
  "scanLine [] offset i line = line"
| "scanLine (x # xs) offset i line =
     (if x > offset then line else scanLine xs offset (Suc i) i)"

text \<open>
  \<open>{ line: line + 1, column: offset - lineOffsets[line] + 1 }\<close>; \<open>line\<close> is always an
  index of the array (lemma \<open>scanLine_bound\<close>), so the read never leaves it.
\<close>

definition createLineAndColumnGetter :: "string \<Rightarrow> int \<Rightarrow> int \<times> int" where
  "createLineAndColumnGetter text offset =
     (let lo = lineOffsets text; line = scanLine lo offset 0 0 in
      (int line + 1, offset - lo ! line + 1))"

section \<open>The mapping builder (createMappings)\<close>

text \<open>
  The first loop over \<open>codes\<close>, from the running \<open>length\<close>: a string only advances the
  counter, a segment pushes a one-point mapping at the counter and advances it.
\<close>

fun originalMappings :: "int \<Rightarrow> code list \<Rightarrow> mapping list" where
  "originalMappings len [] = []"
| "originalMappings len (Lit s # codes) = originalMappings (len + int (length s)) codes"
| "originalMappings len (Seg t src off d # codes) =
     \<lparr>sourceOffsets = [off], generatedOffsets = [len], lengths = [int (length t)], data = d\<rparr>
       # originalMappings (len + int (length t)) codes"

text \<open>
  The three pushes onto the representative:
  \<open>target.sourceOffsets.push(...mapping.sourceOffsets)\<close> and the two like it.
\<close>

definition pushArrays :: "mapping \<Rightarrow> mapping \<Rightarrow> mapping" where
  "pushArrays target m =
     target\<lparr>sourceOffsets := sourceOffsets target @ sourceOffsets m,
            generatedOffsets := generatedOffsets target @ generatedOffsets m,
            lengths := lengths target @ lengths m\<rparr>"

text \<open>
  One iteration of the second loop. The state is the list \<open>mappings\<close> and the table
  \<open>tokens\<close>. The table holds references to objects that are elements of \<open>mappings\<close>
  (\<open>tokens[token] = mapping; mappings.push(mapping)\<close>), so a reference is the index of
  the object in \<open>mappings\<close>, and the in-place pushes update the list at that index.
  A symbol is always truthy, so \<open>if (mapping.data.__combineToken)\<close> asks whether the
  field is there.
\<close>

fun combine :: "mapping \<Rightarrow> mapping list \<times> (symbol \<rightharpoonup> nat) \<Rightarrow> mapping list \<times> (symbol \<rightharpoonup> nat)" where
  "combine m (mappings, tokens) =
     (case combineToken (data m) of
        Some token \<Rightarrow>
          (case tokens token of
             Some i \<Rightarrow> (mappings[i := pushArrays (mappings ! i) m], tokens)
           | None \<Rightarrow> (mappings @ [m], tokens(token \<mapsto> length mappings)))
      | None \<Rightarrow> (mappings @ [m], tokens))"

definition createMappings :: "code list \<Rightarrow> mapping list" where
  "createMappings codes = fst (fold combine (originalMappings 0 codes) ([], Map.empty))"

subsection \<open>Vocabulary for the properties of the builder\<close>

abbreviation tokenOf :: "mapping \<Rightarrow> symbol option" where
  "tokenOf m \<equiv> combineToken (data m)"

definition hasToken :: "symbol \<Rightarrow> mapping \<Rightarrow> bool" where
  "hasToken t m = (tokenOf m = Some t)"

text \<open>A mapped fragment of the code sequence that carries the token \<open>t\<close>.\<close>

fun carries :: "symbol \<Rightarrow> code \<Rightarrow> bool" where
  "carries t (Lit s) = False"
| "carries t (Seg txt src off d) = (combineToken d = Some t)"

text \<open>
  The first-pass list with every later occurrence of a token dropped: an entry stays
  when it has no token or no entry before it has its token.
\<close>

definition keepFirst :: "mapping \<Rightarrow> mapping list \<Rightarrow> mapping list" where
  "keepFirst m acc =
     (if tokenOf m = None \<or> tokenOf m \<notin> set (map tokenOf acc) then acc @ [m] else acc)"

definition firstOccurrences :: "mapping list \<Rightarrow> mapping list" where
  "firstOccurrences ms = fold keepFirst ms []"

text \<open>
  What an entry of the first pass becomes: unchanged without a token; with a token, its
  arrays are those of all the first-pass entries of that token, in first-pass order.
\<close>

definition merged :: "mapping list \<Rightarrow> mapping \<Rightarrow> mapping" where
  "merged ms m =
     (case tokenOf m of
        None \<Rightarrow> m
      | Some t \<Rightarrow>
          m\<lparr>sourceOffsets := concat (map sourceOffsets (filter (hasToken t) ms)),
            generatedOffsets := concat (map generatedOffsets (filter (hasToken t) ms)),
            lengths := concat (map lengths (filter (hasToken t) ms))\<rparr>)"


text \<open>
  Projections of a code used to state the results in terms of the code sequence; the value
  on a plain string is never looked at (they are applied to mapped fragments only).
\<close>

fun offsetOf :: "code \<Rightarrow> int" where
  "offsetOf (Lit s) = 0"
| "offsetOf (Seg txt src off d) = off"

fun textOf :: "code \<Rightarrow> string" where
  "textOf (Lit s) = s"
| "textOf (Seg txt src off d) = txt"

text \<open>
  The invariant of the second loop after the first-pass entries \<open>ms\<close>: the list holds
  the merged first occurrences, and the table sends a token to the index of its entry.
\<close>

definition builderInv :: "mapping list \<Rightarrow> mapping list \<times> (symbol \<rightharpoonup> nat) \<Rightarrow> bool" where
  "builderInv ms st =
     (fst st = map (merged ms) (firstOccurrences ms) \<and>
      (\<forall>t i. snd st t = Some i \<longleftrightarrow>
         (i < length (firstOccurrences ms) \<and> tokenOf (firstOccurrences ms ! i) = Some t)))"

section \<open>Boundaries (generateBoundary)\<close>

text \<open>
  The rest arguments of \<open>generateBoundary\<close>: \<open>[features]\<close> in the open form
  (\<open>typeof args[0] === "object"\<close>), \<open>[end, features, ...codes]\<close> in the wrapped form.
\<close>

datatype boundaryArgs = OpenForm codeInformation | WrapForm int codeInformation "code list"

text \<open>The value the open form returns: \<open>{ token, end }\<close>.\<close>

record boundary =
  token :: symbol
  endFn :: "int \<Rightarrow> code"

text \<open>
  \<open>Symbol(source)\<close> makes a symbol no earlier call has made. The generator takes the
  number of symbols made so far and returns it advanced; a symbol's identity is that
  number. The result is the list of codes it yields, the value it returns (only the open
  form returns one) and the new count.
  \<open>{ ...features, __combineToken: token }\<close> is the features with the token field set;
  the closing code's data is the object \<open>{ __combineToken: token }\<close>, which has no
  \<open>verification\<close> field.
\<close>

fun generateBoundary ::
  "string \<Rightarrow> int \<Rightarrow> boundaryArgs \<Rightarrow> nat \<Rightarrow> code list \<times> boundary option \<times> nat" where
  "generateBoundary source start (OpenForm features) made =
     (let sym = Symbol made source in
      ([Seg [] (Some source) start (features\<lparr>combineToken := Some sym\<rparr>)],
       Some \<lparr>token = sym,
             endFn = (\<lambda>offset. Seg [] (Some source) offset
                        \<lparr>verification = None, combineToken = Some sym\<rparr>)\<rparr>,
       Suc made))"
| "generateBoundary source start (WrapForm end' features codes) made =
     (let sym = Symbol made source in
      ([Seg [] (Some source) start (features\<lparr>combineToken := Some sym\<rparr>)]
         @ codes
         @ [Seg [] (Some source) end' \<lparr>verification = None, combineToken = Some sym\<rparr>],
       None,
       Suc made))"

section \<open>Verification policies (codeFeatures) and isVerificationEnabled\<close>

text \<open>\<open>String(v)\<close> for the values a \<open>shouldReport\<close> callback receives.\<close>

fun digitsOf :: "nat \<Rightarrow> string" where
  "digitsOf n =
     (if n < 10 then [''0123456789'' ! n]
      else digitsOf (n div 10) @ [''0123456789'' ! (n mod 10)])"

declare digitsOf.simps [simp del]

fun String :: "jsval \<Rightarrow> string" where
  "String JUndefined = ''undefined''"
| "String (JNum n) = (if n < 0 then CHR ''-'' # digitsOf (nat (- n)) else digitsOf (nat n))"
| "String (JStr s) = s"

text \<open>
  The entries of \<open>codeFeatures\<close>. Each \<open>shouldReport\<close> is the two-parameter arrow
  function \<open>(_source, code) => String(code) !== "..." && String(code) !== "..."\<close>.
\<close>

definition codeFeatures_none :: codeInformation where
  "codeFeatures_none = \<lparr>verification = None, combineToken = None\<rparr>"

definition codeFeatures_verification :: codeInformation where
  "codeFeatures_verification = \<lparr>verification = Some (VBool True), combineToken = None\<rparr>"

definition codeFeatures_doNotReportTs2339AndTs2551 :: codeInformation where
  "codeFeatures_doNotReportTs2339AndTs2551 =
     \<lparr>verification = Some (VObject (Some (\<lambda>source' code.
        String code \<noteq> ''2339'' \<and> String code \<noteq> ''2551''))),
      combineToken = None\<rparr>"

definition codeFeatures_doNotReportTs2353AndTs2561 :: codeInformation where
  "codeFeatures_doNotReportTs2353AndTs2561 =
     \<lparr>verification = Some (VObject (Some (\<lambda>source' code.
        String code \<noteq> ''2353'' \<and> String code \<noteq> ''2561''))),
      combineToken = None\<rparr>"

definition codeFeatures_doNotReportTs6133 :: codeInformation where
  "codeFeatures_doNotReportTs6133 =
     \<lparr>verification = Some (VObject (Some (\<lambda>source' code. String code \<noteq> ''6133''))),
      combineToken = None\<rparr>"

text \<open>
  \<open>data.verification === true || typeof data.verification === "object" &&
  data.verification.shouldReport?.(code) === true\<close>.
  The call passes one argument: the diagnostic's code arrives as the callback's first
  parameter and its second parameter is \<open>undefined\<close>. An absent \<open>shouldReport\<close> makes
  the optional call \<open>undefined\<close>, which is not \<open>true\<close>.
\<close>

definition isVerificationEnabled :: "codeInformation \<Rightarrow> int \<Rightarrow> bool" where
  "isVerificationEnabled info code =
     (case verification info of
        Some (VBool b) \<Rightarrow> b
      | Some (VObject (Some shouldReport)) \<Rightarrow> shouldReport (JNum code) JUndefined
      | _ \<Rightarrow> False)"

section \<open>The position map's backward query\<close>

text \<open>
  Modelled from the spec: \<open>toSourceLocation\<close> is a method of the \<open>SourceMap\<close> class that
  the sources import from \<open>@vue/language-core\<close>; the class itself is not among them. The
  spec's words (4.3): for every entry containing the generated offset among its
  \<open>generatedOffsets\<close>, yield the corresponding \<open>sourceOffsets\<close> value(s) at the matching
  index/indices, only from entries whose metadata satisfies the predicate; entries are
  scanned in map order and, within an entry, indices in array order. Each yielded item
  is the pair of the offset and its entry. \<open>NaN\<close> equals no offset.
\<close>

definition toSourceLocation ::
  "mapping list \<Rightarrow> offset \<Rightarrow> (codeInformation \<Rightarrow> bool) \<Rightarrow> (int \<times> mapping) list" where
  "toSourceLocation mappings generatedOffset accept =
     concat (map (\<lambda>m.
       if accept (data m)
       then map (\<lambda>p. (fst p, m))
              (filter (\<lambda>p. Off (snd p) = generatedOffset)
                 (zip (sourceOffsets m) (generatedOffsets m)))
       else []) mappings)"

text \<open>
  \<open>for (const [offset] of ...) { left = offset; break; }\<close>: the first yielded offset,
  or \<open>undefined\<close> when nothing is yielded.
\<close>

definition firstOffset :: "(int \<times> mapping) list \<Rightarrow> int option" where
  "firstOffset ys = (case ys of [] \<Rightarrow> None | y # _ \<Rightarrow> Some (fst y))"

section \<open>Parsing the checker's report (parseDiagnostics)\<close>

text \<open>
  \<open>diagnosticRE\<close> is
  \<open>/^(?<path>.*?):(?<line>\d+):(?<column>\d+) - error TS(?<code>\d+): (?<message>.*)$/\<close>.
  A dot matches any code unit but a line terminator. Each \<open>\d+\<close> is followed by a
  literal that is not a digit, so the only run of digits that can match is the longest
  one. The lazy \<open>path\<close> is the shortest prefix after which the rest of the pattern
  matches to the end of the text.
\<close>

definition lineTerminator :: "char \<Rightarrow> bool" where
  "lineTerminator c = (c = CHR 0x0A \<or> c = CHR 0x0D)"

definition isDigit :: "char \<Rightarrow> bool" where
  "isDigit c = (c \<in> set ''0123456789'')"

fun literal :: "string \<Rightarrow> string \<Rightarrow> string option" where
  "literal [] s = Some s"
| "literal (c # cs) [] = None"
| "literal (c # cs) (d # ds) = (if c = d then literal cs ds else None)"

definition digits :: "string \<Rightarrow> (string \<times> string) option" where
  "digits s =
     (if takeWhile isDigit s = [] then None
      else Some (takeWhile isDigit s, dropWhile isDigit s))"

text \<open>The pattern after the path: the captured line, column, code and message.\<close>

definition afterPath :: "string \<Rightarrow> (string \<times> string \<times> string \<times> string) option" where
  "afterPath s =
     (case literal '':'' s of None \<Rightarrow> None | Some s1 \<Rightarrow>
      case digits s1 of None \<Rightarrow> None | Some (ln, s2) \<Rightarrow>
      case literal '':'' s2 of None \<Rightarrow> None | Some s3 \<Rightarrow>
      case digits s3 of None \<Rightarrow> None | Some (col, s4) \<Rightarrow>
      case literal '' - error TS'' s4 of None \<Rightarrow> None | Some s5 \<Rightarrow>
      case digits s5 of None \<Rightarrow> None | Some (cd, s6) \<Rightarrow>
      case literal '': '' s6 of None \<Rightarrow> None | Some msg \<Rightarrow>
      if list_ex lineTerminator msg then None else Some (ln, col, cd, msg))"

fun matchFrom ::
  "string \<Rightarrow> string \<Rightarrow> (string \<times> string \<times> string \<times> string \<times> string) option" where
  "matchFrom p [] = None"
| "matchFrom p (c # cs) =
     (case afterPath (c # cs) of
        Some r \<Rightarrow> Some (p, r)
      | None \<Rightarrow> if lineTerminator c then None else matchFrom (p @ [c]) cs)"

definition diagnosticRE ::
  "string \<Rightarrow> (string \<times> string \<times> string \<times> string \<times> string) option" where
  "diagnosticRE text = matchFrom [] text"

text \<open>
  \<open>Number(s)\<close> on a run of decimal digits: its decimal value (exact in the source for
  values below \<open>2^53\<close>, which the lines, columns and codes of a report are).
\<close>

definition Number :: "string \<Rightarrow> int" where
  "Number s = fold (\<lambda>c n. 10 * n + (int (of_char c) - 48)) s 0"

record position =
  line :: int
  column :: int

record diagnostic =
  path :: string
  start :: position
  end' :: position
  code :: int
  message :: string

text \<open>The variables of the loop: the list \<open>diagnostics\<close>, \<open>cursor\<close> and \<open>padding\<close>.\<close>

record parseState =
  diagnostics :: "diagnostic list"
  cursor :: int
  padding :: int

datatype error = TypeError

text \<open>\<open>text.lastIndexOf(c)\<close>: the index of the last \<open>c\<close>, or \<open>-1\<close>.\<close>

definition lastIndexOf :: "char \<Rightarrow> string \<Rightarrow> int" where
  "lastIndexOf c text =
     (if c \<in> set text
      then int (length text) - 1 - int (length (takeWhile (\<lambda>d. d \<noteq> c) (rev text)))
      else - 1)"

text \<open>
  One iteration of the loop over the lines, \<open>cursor++\<close> included. \<open>resolve\<close> is the
  path function the source imports from \<open>pathe\<close>.
  \<open>text.split(" ", 1)[0]\<close> is the text up to its first space.
  \<open>diagnostics.at(-1)\<close> is \<open>undefined\<close> on an empty list, and reading
  \<open>diagnostic.start\<close> then throws a \<open>TypeError\<close>.
  \<open>(cursor - 3) / 2\<close> is evaluated only when \<open>cursor % 2 === 1\<close>, where the
  quotient is an integer and \<open>div\<close> gives it.
\<close>

definition parseLine ::
  "(string \<Rightarrow> string) \<Rightarrow> parseState \<Rightarrow> string \<Rightarrow> error + parseState" where
  "parseLine resolve st text =
     (case diagnosticRE text of
        Some (p, ln, col, cd, msg) \<Rightarrow>
          Inr (st\<lparr>diagnostics := diagnostics st @
                    [\<lparr>path = resolve p,
                      start = \<lparr>line = Number ln, column = Number col\<rparr>,
                      end' = \<lparr>line = 0, column = 0\<rparr>,
                      code = Number cd,
                      message = msg\<rparr>],
                  cursor := 0 + 1\<rparr>)
      | None \<Rightarrow>
          if cursor st mod 2 = 0 \<and> text \<noteq> [] then
            Inr (st\<lparr>padding := int (length (takeWhile (\<lambda>c. c \<noteq> CHR '' '') text)),
                    cursor := cursor st + 1\<rparr>)
          else if cursor st mod 2 = 1 \<and> CHR ''~'' \<in> set text then
            (case diagnostics st of
               [] \<Rightarrow> Inl TypeError
             | d # ds \<Rightarrow>
                 Inr (st\<lparr>diagnostics := butlast (diagnostics st) @
                           [(last (diagnostics st))
                              \<lparr>end' := \<lparr>line = line (start (last (diagnostics st)))
                                                + (cursor st - 3) div 2,
                                        column = lastIndexOf CHR ''~'' text + 1 - padding st\<rparr>\<rparr>],
                         cursor := cursor st + 1\<rparr>))
          else Inr (st\<lparr>cursor := cursor st + 1\<rparr>))"

fun parseLines ::
  "(string \<Rightarrow> string) \<Rightarrow> parseState \<Rightarrow> string list \<Rightarrow> error + parseState" where
  "parseLines resolve st [] = Inr st"
| "parseLines resolve st (text # rest) =
     (case parseLine resolve st text of
        Inl e \<Rightarrow> Inl e
      | Inr st' \<Rightarrow> parseLines resolve st' rest)"

text \<open>
  \<open>stdout.trim().split("\n")\<close>. The white space and line terminators that fit a
  \<open>char\<close>: tab, line feed, vertical tab, form feed, carriage return, space and
  no-break space.
\<close>

definition isWhiteSpace :: "char \<Rightarrow> bool" where
  "isWhiteSpace c =
     (c \<in> set [CHR 0x09, CHR 0x0A, CHR 0x0B, CHR 0x0C, CHR 0x0D, CHR 0x20, CHR 0xA0])"

definition trim :: "string \<Rightarrow> string" where
  "trim s = rev (dropWhile isWhiteSpace (rev (dropWhile isWhiteSpace s)))"

fun splitLines :: "string \<Rightarrow> string \<Rightarrow> string list" where
  "splitLines cur [] = [cur]"
| "splitLines cur (c # cs) =
     (if c = CHR 0x0A then cur # splitLines [] cs else splitLines (cur @ [c]) cs)"

text \<open>
  The grouping by path: \<open>groups\<close> in the order the keys were first set, each group in
  the order of the diagnostics. (Paths are what \<open>resolve\<close> returns, absolute paths; a
  key of that form is neither an array index nor a property an empty object inherits.)
\<close>

fun addToGroup ::
  "diagnostic \<Rightarrow> (string \<times> diagnostic list) list \<Rightarrow> (string \<times> diagnostic list) list" where
  "addToGroup d [] = [(path d, [d])]"
| "addToGroup d (g # gs) =
     (if fst g = path d then (fst g, snd g @ [d]) # gs else g # addToGroup d gs)"

definition groupByPath :: "diagnostic list \<Rightarrow> (string \<times> diagnostic list) list" where
  "groupByPath ds = fold addToGroup ds []"

definition initialState :: parseState where
  "initialState = \<lparr>diagnostics = [], cursor = 0, padding = 0\<rparr>"

definition parseDiagnostics ::
  "(string \<Rightarrow> string) \<Rightarrow> string \<Rightarrow> error + (string \<times> diagnostic list) list" where
  "parseDiagnostics resolve stdout =
     (case parseLines resolve initialState (splitLines [] (trim stdout)) of
        Inl e \<Rightarrow> Inl e
      | Inr st \<Rightarrow> Inr (groupByPath (diagnostics st)))"

subsection \<open>Vocabulary for the properties of the parser\<close>

text \<open>
  The lines \<open>rows\<close>, read from the cursor value \<open>c\<close>, hold no header and no recognised
  underline: no row matches \<open>diagnosticRE\<close>, and no row read at an odd cursor has a tilde.
\<close>

fun noUnderline :: "int \<Rightarrow> string list \<Rightarrow> bool" where
  "noUnderline c [] = True"
| "noUnderline c (row # rest) =
     (diagnosticRE row = None \<and> (c mod 2 = 0 \<or> CHR ''~'' \<notin> set row) \<and> noUnderline (c + 1) rest)"

text \<open>
  The most recent row that took the snippet branch (read at an even cursor, not empty, not
  a header), followed through the rows with the cursor the loop has there; \<open>r\<close> is the
  most recent one so far.
\<close>

fun snippetScan :: "int \<Rightarrow> string option \<Rightarrow> string list \<Rightarrow> string option" where
  "snippetScan c r [] = r"
| "snippetScan c r (row # rest) =
     (if diagnosticRE row \<noteq> None then snippetScan 1 r rest
      else if c mod 2 = 0 \<and> row \<noteq> [] then snippetScan (c + 1) (Some row) rest
      else snippetScan (c + 1) r rest)"

definition recentSnippet :: "string list \<Rightarrow> string option" where
  "recentSnippet lines = snippetScan 0 None lines"

text \<open>
  The length of a snippet row up to its first space; \<open>0\<close>, the initial \<open>padding\<close>, when
  there has been none.
\<close>

definition gutterWidth :: "string option \<Rightarrow> int" where
  "gutterWidth r = (case r of None \<Rightarrow> 0 | Some row \<Rightarrow> int (length (takeWhile (\<lambda>c. c \<noteq> CHR '' '') row)))"

section \<open>Remapping the diagnostics of a file (check)\<close>

text \<open>
  The fields of \<open>SourceFile\<close> that the remap reads. \<open>getVirtualOffset\<close> is
  \<open>createOffsetGetter(virtualText ?? "")\<close> and \<open>getSourceLineAndColumn\<close> is
  \<open>createLineAndColumnGetter(sourceText)\<close>; \<open>mapper\<close> is the position map.
\<close>

record sourceFile =
  sourcePath :: string
  sourceText :: string
  virtualText :: "string option"
  mapper :: "mapping list"

definition getVirtualOffset :: "sourceFile \<Rightarrow> int \<Rightarrow> int \<Rightarrow> offset" where
  "getVirtualOffset sf =
     createOffsetGetter (case virtualText sf of None \<Rightarrow> [] | Some t \<Rightarrow> t)"

definition getSourceLineAndColumn :: "sourceFile \<Rightarrow> int \<Rightarrow> position" where
  "getSourceLineAndColumn sf offset =
     \<lparr>line = fst (createLineAndColumnGetter (sourceText sf) offset),
      column = snd (createLineAndColumnGetter (sourceText sf) offset)\<rparr>"

text \<open>\<open>!left\<close> on \<open>number | undefined\<close>: true on \<open>undefined\<close> and on \<open>0\<close>.\<close>

definition falsy :: "int option \<Rightarrow> bool" where
  "falsy v = (case v of None \<Rightarrow> True | Some n \<Rightarrow> n = 0)"

text \<open>
  The body of the loop over the diagnostics of a file the project knows: \<open>None\<close> is
  \<open>diagnostics.splice(i--, 1)\<close>, the diagnostic removed from the list.
\<close>

definition remap :: "sourceFile \<Rightarrow> diagnostic \<Rightarrow> diagnostic option" where
  "remap sf d =
     (let left = firstOffset (toSourceLocation (mapper sf)
                   (getVirtualOffset sf (line (start d)) (column (start d)))
                   (\<lambda>info. isVerificationEnabled info (code d)));
          right = firstOffset (toSourceLocation (mapper sf)
                   (getVirtualOffset sf (line (end' d)) (column (end' d)))
                   (\<lambda>info. isVerificationEnabled info (code d)))
      in if falsy left \<or> falsy right then None
         else (case (left, right) of
                 (Some l, Some r) \<Rightarrow>
                   Some (d\<lparr>start := getSourceLineAndColumn sf l,
                           end' := getSourceLineAndColumn sf r\<rparr>)
               | _ \<Rightarrow> None))"

fun remapDiagnostics :: "sourceFile \<Rightarrow> diagnostic list \<Rightarrow> diagnostic list" where
  "remapDiagnostics sf [] = []"
| "remapDiagnostics sf (d # ds) =
     (case remap sf d of
        None \<Rightarrow> remapDiagnostics sf ds
      | Some d' \<Rightarrow> d' # remapDiagnostics sf ds)"

text \<open>
  One group of \<open>check\<close>: \<open>targetToSource.get(path)\<close> is the file, if the project knows
  the path. A group of an unknown file keeps its diagnostics as they are and has its path
  rewritten (\<open>rewrite\<close> stands for \<open>path.replace(cacheRoot, mutualRoot)\<close>); a group of a
  known file is remapped and takes the path of the original file. The result is what the
  rendering loop prints.
\<close>

definition checkGroup ::
  "(string \<Rightarrow> string) \<Rightarrow> (string \<rightharpoonup> sourceFile) \<Rightarrow> string \<times> diagnostic list
     \<Rightarrow> string \<times> diagnostic list" where
  "checkGroup rewrite targetToSource g =
     (case targetToSource (fst g) of
        None \<Rightarrow> (rewrite (fst g), snd g)
      | Some sf \<Rightarrow> (sourcePath sf, remapDiagnostics sf (snd g)))"

section \<open>The line and offset index: proofs\<close>

lemma scanLine_bound:
  "cur < length (pre @ xs) \<Longrightarrow> length pre = i \<Longrightarrow>
   scanLine xs offset i cur < length (pre @ xs)"
proof (induction xs arbitrary: pre i cur)
  case Nil
  then show ?case by simp
next
  case (Cons x xs)
  have "scanLine xs offset (Suc i) i < length ((pre @ [x]) @ xs)"
    by (rule Cons.IH) (use Cons.prems in simp_all)
  then show ?case using Cons.prems(1) by simp
qed

lemma scanLine_le:
  "(pre @ xs) ! cur \<le> offset \<Longrightarrow> length pre = i \<Longrightarrow>
   (pre @ xs) ! scanLine xs offset i cur \<le> offset"
proof (induction xs arbitrary: pre i cur)
  case Nil
  then show ?case by simp
next
  case (Cons x xs)
  show ?case
  proof (cases "x > offset")
    case True
    then show ?thesis using Cons.prems by simp
  next
    case False
    have "((pre @ [x]) @ xs) ! i \<le> offset"
      using False Cons.prems(2) by (simp add: nth_append)
    then have "((pre @ [x]) @ xs) ! scanLine xs offset (Suc i) i \<le> offset"
      by (rule Cons.IH) (use Cons.prems in simp)
    then show ?thesis using False by simp
  qed
qed

lemma scanLine_lineOffsets_bound:
  "scanLine (lineOffsets text) offset 0 0 < length (lineOffsets text)"
  using scanLine_bound [of 0 "[]" "lineOffsets text" 0 offset]
  by (simp add: lineOffsets_def)

lemma scanLine_lineOffsets_le:
  assumes "0 \<le> offset"
  shows "lineOffsets text ! scanLine (lineOffsets text) offset 0 0 \<le> offset"
proof -
  have "([] @ lineOffsets text) ! 0 \<le> offset"
    using assms by (simp add: lineOffsets_def)
  then have "([] @ lineOffsets text) ! scanLine (lineOffsets text) offset 0 0 \<le> offset"
    by (rule scanLine_le) simp
  then show ?thesis by simp
qed

text \<open>
  C8. Line/column round-trip: for every text and every offset \<open>o\<close> with
  \<open>0 \<le> o < length text\<close>, the line-and-column getter gives a 1-based pair
  \<open>(line, column)\<close>, and the offset getter built over the same text maps that pair
  back to exactly \<open>o\<close>.
\<close>

theorem line_column_round_trip:
  assumes "0 \<le> o'" and "o' < int (length text)"
  shows "createOffsetGetter text (fst (createLineAndColumnGetter text o'))
           (snd (createLineAndColumnGetter text o')) = Off o'
         \<and> 1 \<le> fst (createLineAndColumnGetter text o')
         \<and> 1 \<le> snd (createLineAndColumnGetter text o')"
proof -
  let ?lo = "lineOffsets text"
  let ?l = "scanLine ?lo o' 0 0"
  have b: "?l < length ?lo" by (rule scanLine_lineOffsets_bound)
  have le: "?lo ! ?l \<le> o'" by (rule scanLine_lineOffsets_le) (rule assms(1))
  have lc: "createLineAndColumnGetter text o' = (int ?l + 1, o' - ?lo ! ?l + 1)"
    by (simp add: createLineAndColumnGetter_def Let_def)
  have "createOffsetGetter text (int ?l + 1) (o' - ?lo ! ?l + 1) = Off o'"
    using b by (simp add: createOffsetGetter_def Let_def)
  then show ?thesis using le by (simp add: lc)
qed

theorem line_column_round_trip_witness:
  "createLineAndColumnGetter [CHR ''a'', CHR 0x0A, CHR ''b'', CHR ''c''] 3 = (2, 2)
   \<and> createOffsetGetter [CHR ''a'', CHR 0x0A, CHR ''b'', CHR ''c''] 2 2 = Off 3"
  using line_column_round_trip [of 3 "[CHR ''a'', CHR 0x0A, CHR ''b'', CHR ''c'']"]
  by (simp add: createLineAndColumnGetter_def createOffsetGetter_def lineOffsets_def)

section \<open>The mapping builder: proofs\<close>

lemma firstOccurrences_snoc:
  "firstOccurrences (ms @ [m]) = keepFirst m (firstOccurrences ms)"
  by (simp add: firstOccurrences_def)

lemma firstOccurrences_Nil: "firstOccurrences [] = []"
  by (simp add: firstOccurrences_def)

lemma firstOccurrences_tokens:
  "tokenOf ` set (firstOccurrences ms) = tokenOf ` set ms"
proof (induction ms rule: rev_induct)
  case Nil
  then show ?case by (simp add: firstOccurrences_Nil)
next
  case (snoc m ms)
  then show ?case
    by (auto simp: firstOccurrences_snoc keepFirst_def)
qed

lemma firstOccurrences_subset: "set (firstOccurrences ms) \<subseteq> set ms"
proof (induction ms rule: rev_induct)
  case Nil
  then show ?case by (simp add: firstOccurrences_Nil)
next
  case (snoc m ms)
  then show ?case
    by (auto simp: firstOccurrences_snoc keepFirst_def)
qed

lemma filter_hasToken_empty:
  "Some t \<notin> tokenOf ` set ms \<Longrightarrow> filter (hasToken t) ms = []"
  by (induction ms) (auto simp: hasToken_def)

lemma merged_snoc_other:
  "tokenOf m \<noteq> tokenOf x \<or> tokenOf x = None \<Longrightarrow> merged (ms @ [x]) m = merged ms m"
  by (auto simp: merged_def hasToken_def split: option.splits)

lemma merged_snoc_same:
  "tokenOf m = Some t \<Longrightarrow> tokenOf x = Some t \<Longrightarrow>
   merged (ms @ [x]) m = pushArrays (merged ms m) x"
  by (simp add: merged_def hasToken_def pushArrays_def)

lemma merged_untokened: "tokenOf m = None \<Longrightarrow> merged ms m = m"
  by (simp add: merged_def)

lemma merged_fresh:
  "tokenOf x = None \<or> tokenOf x \<notin> tokenOf ` set ms \<Longrightarrow> merged (ms @ [x]) x = x"
  by (cases "tokenOf x") (auto simp: merged_def hasToken_def filter_hasToken_empty)

lemma builderInv_step:
  assumes inv: "builderInv ms st"
  shows "builderInv (ms @ [x]) (combine x st)"
proof -
  obtain out tk where st: "st = (out, tk)" by (cases st)
  let ?F = "firstOccurrences ms"
  have out: "out = map (merged ms) ?F"
    using inv by (simp add: builderInv_def st)
  have tk: "\<And>t i. tk t = Some i \<longleftrightarrow> (i < length ?F \<and> tokenOf (?F ! i) = Some t)"
    using inv by (simp add: builderInv_def st)
  show ?thesis
  proof (cases "tokenOf x")
    case None
    have F': "firstOccurrences (ms @ [x]) = ?F @ [x]"
      by (simp add: firstOccurrences_snoc keepFirst_def None)
    have "map (merged (ms @ [x])) (?F @ [x]) = out @ [x]"
      by (simp add: out merged_snoc_other merged_untokened None)
    then show ?thesis
      by (auto simp: builderInv_def st None F' tk nth_append)
  next
    case (Some t)
    show ?thesis
    proof (cases "tk t")
      case None
      have notin_nth: "\<And>i. i < length ?F \<Longrightarrow> tokenOf (?F ! i) \<noteq> Some t"
      proof
        fix i assume "i < length ?F" "tokenOf (?F ! i) = Some t"
        then have "tk t = Some i" by (simp add: tk)
        then show False using None by simp
      qed
      have notin: "Some t \<notin> tokenOf ` set ?F"
      proof
        assume "Some t \<in> tokenOf ` set ?F"
        then obtain i where "i < length ?F" "tokenOf (?F ! i) = Some t"
          by (auto simp: in_set_conv_nth)
        then have "tk t = Some i" by (simp add: tk)
        then show False using None by simp
      qed
      have F': "firstOccurrences (ms @ [x]) = ?F @ [x]"
        using notin by (simp add: firstOccurrences_snoc keepFirst_def Some)
      have other: "\<And>m. m \<in> set ?F \<Longrightarrow> merged (ms @ [x]) m = merged ms m"
      proof -
        fix m assume m: "m \<in> set ?F"
        have "tokenOf m \<noteq> Some t"
        proof
          assume "tokenOf m = Some t"
          then have "Some t \<in> tokenOf ` set ?F" using m by (metis image_eqI)
          then show False using notin by simp
        qed
        then show "merged (ms @ [x]) m = merged ms m"
          by (intro merged_snoc_other) (simp add: Some)
      qed
      have notin_ms: "Some t \<notin> tokenOf ` set ms"
        using notin unfolding firstOccurrences_tokens .
      have fresh: "merged (ms @ [x]) x = x"
        using notin_ms by (intro merged_fresh) (simp add: Some)
      have mF: "map (merged (ms @ [x])) ?F = out"
        by (simp add: out other)
      have len: "length out = length ?F" by (simp add: out)
      have "\<And>t' i. (tk(t \<mapsto> length out)) t' = Some i \<longleftrightarrow>
              (i < length (?F @ [x]) \<and> tokenOf ((?F @ [x]) ! i) = Some t')"
        using notin_nth by (auto simp: tk len nth_append Some)
      then show ?thesis
        by (simp add: builderInv_def st Some None F' mF fresh)
    next
      case (Some i)
      note tki = Some
      have i: "i < length ?F" and ti: "tokenOf (?F ! i) = Some t"
        using tki by (simp_all add: tk)
      have "?F ! i \<in> set ?F" using i by simp
      then have "tokenOf (?F ! i) \<in> tokenOf ` set ?F" by (rule imageI)
      then have "Some t \<in> set (map tokenOf ?F)" using ti by simp
      then have F': "firstOccurrences (ms @ [x]) = ?F"
        by (simp add: firstOccurrences_snoc keepFirst_def \<open>tokenOf x = Some t\<close>)
      have "map (merged (ms @ [x])) ?F = out[i := pushArrays (out ! i) x]"
      proof (rule nth_equalityI)
        show "length (map (merged (ms @ [x])) ?F) = length (out[i := pushArrays (out ! i) x])"
          by (simp add: out)
      next
        fix j assume "j < length (map (merged (ms @ [x])) ?F)"
        then have j: "j < length ?F" by simp
        show "map (merged (ms @ [x])) ?F ! j = out[i := pushArrays (out ! i) x] ! j"
        proof (cases "j = i")
          case True
          then show ?thesis
            using i ti by (simp add: out merged_snoc_same \<open>tokenOf x = Some t\<close>)
        next
          case False
          have "tokenOf (?F ! j) \<noteq> Some t"
          proof
            assume "tokenOf (?F ! j) = Some t"
            then have "tk t = Some j" using j by (simp add: tk)
            then show False using tki False by simp
          qed
          then have "merged (ms @ [x]) (?F ! j) = merged ms (?F ! j)"
            by (intro merged_snoc_other) (simp add: \<open>tokenOf x = Some t\<close>)
          then show ?thesis using j False by (simp add: out)
        qed
      qed
      then show ?thesis
        by (simp add: builderInv_def st \<open>tokenOf x = Some t\<close> tki F' tk)
    qed
  qed
qed

lemma builderInv_fold: "builderInv ms (fold combine ms ([], Map.empty))"
proof (induction ms rule: rev_induct)
  case Nil
  then show ?case by (simp add: builderInv_def firstOccurrences_Nil)
next
  case (snoc x ms)
  then show ?case by (simp add: builderInv_step)
qed

lemma createMappings_eq:
  "createMappings codes =
     map (merged (originalMappings 0 codes)) (firstOccurrences (originalMappings 0 codes))"
  using builderInv_fold [of "originalMappings 0 codes"]
  by (simp add: createMappings_def builderInv_def)


lemma tokenOf_merged: "tokenOf (merged ms m) = tokenOf m"
  by (simp add: merged_def split: option.splits)

lemma data_merged: "data (merged ms m) = data m"
  by (simp add: merged_def split: option.splits)

lemma hasToken_merged: "hasToken t (merged ms m) = hasToken t m"
  by (simp add: hasToken_def tokenOf_merged)

lemma filter_hasToken_nonempty:
  "filter (hasToken t) ms \<noteq> [] \<Longrightarrow> Some t \<in> set (map tokenOf ms)"
  by (induction ms) (auto simp: hasToken_def split: if_splits)

lemma filter_firstOccurrences:
  "filter (hasToken t) (firstOccurrences ms) =
     (if filter (hasToken t) ms = [] then [] else [hd (filter (hasToken t) ms)])"
proof (induction ms rule: rev_induct)
  case Nil
  then show ?case by (simp add: firstOccurrences_Nil)
next
  case (snoc x ms)
  let ?F = "firstOccurrences ms"
  show ?case
  proof (cases "hasToken t x")
    case False
    then have "filter (hasToken t) (keepFirst x ?F) = filter (hasToken t) ?F"
      by (simp add: keepFirst_def)
    then show ?thesis using False snoc by (simp add: firstOccurrences_snoc)
  next
    case True
    then have tx: "tokenOf x = Some t" by (simp add: hasToken_def)
    show ?thesis
    proof (cases "filter (hasToken t) ms = []")
      case True
      have "Some t \<notin> set (map tokenOf ?F)"
      proof
        assume "Some t \<in> set (map tokenOf ?F)"
        then have "Some t \<in> tokenOf ` set ms"
          using firstOccurrences_tokens [of ms] by simp
        then obtain m where "m \<in> set ms" "hasToken t m"
          by (auto simp: hasToken_def)
        then have "filter (hasToken t) ms \<noteq> []"
          by (auto simp: filter_empty_conv)
        then show False using True by simp
      qed
      then have "keepFirst x ?F = ?F @ [x]" by (simp add: keepFirst_def tx)
      then show ?thesis
        using True snoc \<open>hasToken t x\<close> by (simp add: firstOccurrences_snoc)
    next
      case False
      then have "Some t \<in> set (map tokenOf ms)" by (rule filter_hasToken_nonempty)
      then have "Some t \<in> set (map tokenOf ?F)"
        using firstOccurrences_tokens [of ms] by simp
      then have "keepFirst x ?F = ?F" by (simp add: keepFirst_def tx)
      then show ?thesis using False snoc by (simp add: firstOccurrences_snoc)
    qed
  qed
qed

lemma filter_untokened_firstOccurrences:
  "filter (\<lambda>m. tokenOf m = None) (firstOccurrences ms) = filter (\<lambda>m. tokenOf m = None) ms"
proof (induction ms rule: rev_induct)
  case Nil
  then show ?case by (simp add: firstOccurrences_Nil)
next
  case (snoc x ms)
  then show ?case by (simp add: firstOccurrences_snoc keepFirst_def)
qed

lemma filter_untokened_merged:
  "filter (\<lambda>m. tokenOf m = None) (map (merged ms) xs) = filter (\<lambda>m. tokenOf m = None) xs"
  by (induction xs) (simp_all add: tokenOf_merged merged_untokened)

lemma filter_hasToken_merged:
  "filter (hasToken t) (map (merged ms) xs) = map (merged ms) (filter (hasToken t) xs)"
  by (induction xs) (simp_all add: hasToken_merged)

lemma originalMappings_sourceOffsets:
  "concat (map sourceOffsets (filter (hasToken t) (originalMappings n codes))) =
     map offsetOf (filter (carries t) codes)"
  by (induction n codes rule: originalMappings.induct) (simp_all add: hasToken_def)

lemma originalMappings_lengths:
  "concat (map lengths (filter (hasToken t) (originalMappings n codes))) =
     map (\<lambda>c. int (length (textOf c))) (filter (carries t) codes)"
  by (induction n codes rule: originalMappings.induct) (simp_all add: hasToken_def)

lemma originalMappings_count:
  "length (filter (hasToken t) (originalMappings n codes)) = length (filter (carries t) codes)"
  by (induction n codes rule: originalMappings.induct) (simp_all add: hasToken_def)

lemma originalMappings_generated_length:
  "length (concat (map generatedOffsets (filter P (originalMappings n codes)))) =
     length (filter P (originalMappings n codes))"
  by (induction n codes rule: originalMappings.induct) simp_all

lemma originalMappings_generated_sorted:
  "sorted (concat (map generatedOffsets (filter P (originalMappings n codes)))) \<and>
   (\<forall>g \<in> set (concat (map generatedOffsets (filter P (originalMappings n codes)))). n \<le> g)"
proof (induction n codes rule: originalMappings.induct)
  case (1 len)
  then show ?case by simp
next
  case (2 len s codes)
  let ?rest = "concat (map generatedOffsets (filter P (originalMappings (len + int (length s)) codes)))"
  have s: "sorted ?rest" and b: "\<And>g. g \<in> set ?rest \<Longrightarrow> len + int (length s) \<le> g"
    using 2 by blast+
  have b': "\<And>g. g \<in> set ?rest \<Longrightarrow> len \<le> g"
  proof -
    fix g assume "g \<in> set ?rest"
    then have "len + int (length s) \<le> g" by (rule b)
    then show "len \<le> g" by simp
  qed
  show ?case using s b' by (simp del: set_concat)
next
  case (3 len t src off d codes)
  let ?rest = "concat (map generatedOffsets (filter P (originalMappings (len + int (length t)) codes)))"
  have s: "sorted ?rest" and b: "\<And>g. g \<in> set ?rest \<Longrightarrow> len + int (length t) \<le> g"
    using 3 by blast+
  have b': "\<And>g. g \<in> set ?rest \<Longrightarrow> len \<le> g"
  proof -
    fix g assume "g \<in> set ?rest"
    then have "len + int (length t) \<le> g" by (rule b)
    then show "len \<le> g" by simp
  qed
  show ?case using s b' by (simp del: set_concat)
qed

lemma originalMappings_single:
  "m \<in> set (originalMappings n codes) \<Longrightarrow> length (generatedOffsets m) = 1"
  by (induction n codes rule: originalMappings.induct) auto


lemma originalMappings_first_data:
  "filter (hasToken t) (originalMappings n codes) \<noteq> [] \<Longrightarrow>
   \<exists>txt src off d rest.
     filter (carries t) codes = Seg txt src off d # rest \<and>
     data (hd (filter (hasToken t) (originalMappings n codes))) = d"
  by (induction n codes rule: originalMappings.induct)
     (auto simp: hasToken_def split: if_splits)

text \<open>
  C4. Compaction correctness: when the code sequence has \<open>k \<ge> 1\<close> mapped fragments
  carrying the token \<open>t\<close>, \<open>createMappings\<close> produces exactly one entry \<open>e\<close> for
  \<open>t\<close>; its three arrays have length \<open>k\<close> and hold the source offsets, generated
  offsets and text lengths of those fragments in first-pass order; \<open>e\<close> stands in the
  output at the index the first fragment of \<open>t\<close> has among the first occurrences, and the
  output is as long as the list of first occurrences; the entries without a token are
  those of the first pass, unchanged and in order.
\<close>

theorem compaction_correctness:
  assumes k: "filter (carries t) codes \<noteq> []"
  shows "\<exists>e i.
      filter (hasToken t) (createMappings codes) = [e]
    \<and> sourceOffsets e = map offsetOf (filter (carries t) codes)
    \<and> generatedOffsets e =
        concat (map generatedOffsets (filter (hasToken t) (originalMappings 0 codes)))
    \<and> lengths e = map (\<lambda>c. int (length (textOf c))) (filter (carries t) codes)
    \<and> length (sourceOffsets e) = length (filter (carries t) codes)
    \<and> length (generatedOffsets e) = length (filter (carries t) codes)
    \<and> length (lengths e) = length (filter (carries t) codes)
    \<and> i < length (createMappings codes) \<and> createMappings codes ! i = e
    \<and> length (createMappings codes) = length (firstOccurrences (originalMappings 0 codes))
    \<and> firstOccurrences (originalMappings 0 codes) ! i =
        hd (filter (hasToken t) (originalMappings 0 codes))
    \<and> filter (\<lambda>m. tokenOf m = None) (createMappings codes) =
        filter (\<lambda>m. tokenOf m = None) (originalMappings 0 codes)"
proof -
  let ?oms = "originalMappings 0 codes"
  let ?frags = "filter (hasToken t) ?oms"
  let ?F = "firstOccurrences ?oms"
  let ?e = "merged ?oms (hd ?frags)"
  have cnt: "length ?frags = length (filter (carries t) codes)"
    by (rule originalMappings_count)
  then have ne: "?frags \<noteq> []" using k by auto
  have "hd ?frags \<in> set ?frags" using ne by (rule hd_in_set)
  then have tok: "tokenOf (hd ?frags) = Some t" by (simp add: hasToken_def)
  have fF: "filter (hasToken t) ?F = [hd ?frags]"
    using ne by (simp add: filter_firstOccurrences)
  then have "hd ?frags \<in> set (filter (hasToken t) ?F)" by simp
  then have "hd ?frags \<in> set ?F" by simp
  then obtain i where i: "i < length ?F" "?F ! i = hd ?frags"
    by (auto simp: in_set_conv_nth)
  have one: "filter (hasToken t) (createMappings codes) = [?e]"
    by (simp add: createMappings_eq filter_hasToken_merged fF)
  have so: "sourceOffsets ?e = map offsetOf (filter (carries t) codes)"
    by (simp add: merged_def tok originalMappings_sourceOffsets)
  have go: "generatedOffsets ?e = concat (map generatedOffsets ?frags)"
    by (simp add: merged_def tok)
  have le: "lengths ?e = map (\<lambda>c. int (length (textOf c))) (filter (carries t) codes)"
    by (simp add: merged_def tok originalMappings_lengths)
  have gl: "length (generatedOffsets ?e) = length (filter (carries t) codes)"
    by (simp only: go originalMappings_generated_length cnt)
  have pos: "i < length (createMappings codes) \<and> createMappings codes ! i = ?e"
    using i by (simp add: createMappings_eq)
  have len: "length (createMappings codes) = length ?F"
    by (simp add: createMappings_eq)
  have un: "filter (\<lambda>m. tokenOf m = None) (createMappings codes) =
        filter (\<lambda>m. tokenOf m = None) ?oms"
    by (simp add: createMappings_eq filter_untokened_merged filter_untokened_firstOccurrences)
  have "filter (hasToken t) (createMappings codes) = [?e]
    \<and> sourceOffsets ?e = map offsetOf (filter (carries t) codes)
    \<and> generatedOffsets ?e = concat (map generatedOffsets ?frags)
    \<and> lengths ?e = map (\<lambda>c. int (length (textOf c))) (filter (carries t) codes)
    \<and> length (sourceOffsets ?e) = length (filter (carries t) codes)
    \<and> length (generatedOffsets ?e) = length (filter (carries t) codes)
    \<and> length (lengths ?e) = length (filter (carries t) codes)
    \<and> i < length (createMappings codes) \<and> createMappings codes ! i = ?e
    \<and> length (createMappings codes) = length ?F
    \<and> ?F ! i = hd ?frags
    \<and> filter (\<lambda>m. tokenOf m = None) (createMappings codes) =
        filter (\<lambda>m. tokenOf m = None) ?oms"
    using one so go le gl pos len i(2) un by simp
  then show ?thesis by blast
qed

theorem compaction_correctness_witness:
  "filter (carries (Symbol 0 ''template''))
     [Seg [] (Some ''template'') 3
        \<lparr>verification = Some (VBool True), combineToken = Some (Symbol 0 ''template'')\<rparr>,
      Lit ''ab'',
      Seg ''x'' None 1 \<lparr>verification = None, combineToken = None\<rparr>,
      Seg [] (Some ''template'') 9
        \<lparr>verification = None, combineToken = Some (Symbol 0 ''template'')\<rparr>] \<noteq> []
   \<and> createMappings
     [Seg [] (Some ''template'') 3
        \<lparr>verification = Some (VBool True), combineToken = Some (Symbol 0 ''template'')\<rparr>,
      Lit ''ab'',
      Seg ''x'' None 1 \<lparr>verification = None, combineToken = None\<rparr>,
      Seg [] (Some ''template'') 9
        \<lparr>verification = None, combineToken = Some (Symbol 0 ''template'')\<rparr>] =
   [\<lparr>sourceOffsets = [3, 9], generatedOffsets = [0, 3], lengths = [0, 0],
      data = \<lparr>verification = Some (VBool True), combineToken = Some (Symbol 0 ''template'')\<rparr>\<rparr>,
    \<lparr>sourceOffsets = [1], generatedOffsets = [2], lengths = [1],
      data = \<lparr>verification = None, combineToken = None\<rparr>\<rparr>]"
proof -
  have h: "filter (carries (Symbol 0 ''template''))
     [Seg [] (Some ''template'') 3
        \<lparr>verification = Some (VBool True), combineToken = Some (Symbol 0 ''template'')\<rparr>,
      Lit ''ab'',
      Seg ''x'' None 1 \<lparr>verification = None, combineToken = None\<rparr>,
      Seg [] (Some ''template'') 9
        \<lparr>verification = None, combineToken = Some (Symbol 0 ''template'')\<rparr>] \<noteq> []"
    by simp
  show ?thesis
    using h compaction_correctness [OF h]
    by (simp add: createMappings_def pushArrays_def)
qed

text \<open>
  C9. Offset monotonicity: in every entry that \<open>createMappings\<close> produces, combined or
  not, the \<open>generatedOffsets\<close> array is non-decreasing.
\<close>

theorem generatedOffsets_sorted:
  assumes "e \<in> set (createMappings codes)"
  shows "sorted (generatedOffsets e)"
proof -
  let ?oms = "originalMappings 0 codes"
  obtain m where m: "m \<in> set (firstOccurrences ?oms)" and e: "e = merged ?oms m"
    using assms by (auto simp: createMappings_eq)
  show ?thesis
  proof (cases "tokenOf m")
    case None
    have "m \<in> set ?oms" using m firstOccurrences_subset by blast
    then have "length (generatedOffsets m) = 1" by (rule originalMappings_single)
    then have "sorted (generatedOffsets m)"
      by (cases "generatedOffsets m") simp_all
    then show ?thesis by (simp add: e merged_untokened None)
  next
    case (Some t)
    then show ?thesis
      using originalMappings_generated_sorted [of "hasToken t" 0 codes]
      by (simp add: e merged_def del: set_concat)
  qed
qed

theorem generatedOffsets_sorted_witness:
  "\<lparr>sourceOffsets = [3, 9], generatedOffsets = [0, 3], lengths = [0, 0],
      data = \<lparr>verification = Some (VBool True), combineToken = Some (Symbol 0 ''template'')\<rparr>\<rparr>
     \<in> set (createMappings
     [Seg [] (Some ''template'') 3
        \<lparr>verification = Some (VBool True), combineToken = Some (Symbol 0 ''template'')\<rparr>,
      Lit ''ab'',
      Seg ''x'' None 1 \<lparr>verification = None, combineToken = None\<rparr>,
      Seg [] (Some ''template'') 9
        \<lparr>verification = None, combineToken = Some (Symbol 0 ''template'')\<rparr>])
   \<and> sorted (generatedOffsets
     \<lparr>sourceOffsets = [3, 9], generatedOffsets = [0, 3], lengths = [0, 0],
      data = \<lparr>verification = Some (VBool True), combineToken = Some (Symbol 0 ''template'')\<rparr>\<rparr>)"
proof -
  have h: "\<lparr>sourceOffsets = [3, 9], generatedOffsets = [0, 3], lengths = [0, 0],
      data = \<lparr>verification = Some (VBool True), combineToken = Some (Symbol 0 ''template'')\<rparr>\<rparr>
     \<in> set (createMappings
     [Seg [] (Some ''template'') 3
        \<lparr>verification = Some (VBool True), combineToken = Some (Symbol 0 ''template'')\<rparr>,
      Lit ''ab'',
      Seg ''x'' None 1 \<lparr>verification = None, combineToken = None\<rparr>,
      Seg [] (Some ''template'') 9
        \<lparr>verification = None, combineToken = Some (Symbol 0 ''template'')\<rparr>])"
    by (simp add: createMappings_def pushArrays_def)
  show ?thesis
    using h generatedOffsets_sorted [OF h] by simp
qed

text \<open>
  C10. Representative metadata: an entry of the output that has the token \<open>t\<close> carries
  the data object of the first mapped fragment of the code sequence with that token; the
  data of the later fragments of \<open>t\<close> (a boundary's closing marker among them) is in no
  entry.
\<close>

theorem representative_data:
  assumes "e \<in> set (createMappings codes)" and "tokenOf e = Some t"
  shows "\<exists>txt src off d rest.
           filter (carries t) codes = Seg txt src off d # rest \<and> data e = d"
proof -
  let ?oms = "originalMappings 0 codes"
  let ?frags = "filter (hasToken t) ?oms"
  obtain m where m: "m \<in> set (firstOccurrences ?oms)" and e: "e = merged ?oms m"
    using assms(1) by (auto simp: createMappings_eq)
  have tm: "hasToken t m" using assms(2) by (simp add: e tokenOf_merged hasToken_def)
  then have "m \<in> set (filter (hasToken t) (firstOccurrences ?oms))" using m by simp
  then have ne: "?frags \<noteq> []" and mh: "m = hd ?frags"
    by (auto simp: filter_firstOccurrences split: if_splits)
  have "data e = data (hd ?frags)" by (simp add: e data_merged mh)
  then show ?thesis using originalMappings_first_data [OF ne] by simp
qed

theorem representative_data_witness:
  "\<lparr>sourceOffsets = [3, 9], generatedOffsets = [0, 3], lengths = [0, 0],
      data = \<lparr>verification = Some (VBool True), combineToken = Some (Symbol 0 ''template'')\<rparr>\<rparr>
     \<in> set (createMappings
     [Seg [] (Some ''template'') 3
        \<lparr>verification = Some (VBool True), combineToken = Some (Symbol 0 ''template'')\<rparr>,
      Lit ''ab'',
      Seg ''x'' None 1 \<lparr>verification = None, combineToken = None\<rparr>,
      Seg [] (Some ''template'') 9
        \<lparr>verification = None, combineToken = Some (Symbol 0 ''template'')\<rparr>])
   \<and> (\<exists>txt src off rest.
        filter (carries (Symbol 0 ''template''))
     [Seg [] (Some ''template'') 3
        \<lparr>verification = Some (VBool True), combineToken = Some (Symbol 0 ''template'')\<rparr>,
      Lit ''ab'',
      Seg ''x'' None 1 \<lparr>verification = None, combineToken = None\<rparr>,
      Seg [] (Some ''template'') 9
        \<lparr>verification = None, combineToken = Some (Symbol 0 ''template'')\<rparr>] =
        Seg txt src off
          \<lparr>verification = Some (VBool True), combineToken = Some (Symbol 0 ''template'')\<rparr> # rest)"
proof -
  have h: "\<lparr>sourceOffsets = [3, 9], generatedOffsets = [0, 3], lengths = [0, 0],
      data = \<lparr>verification = Some (VBool True), combineToken = Some (Symbol 0 ''template'')\<rparr>\<rparr>
     \<in> set (createMappings
     [Seg [] (Some ''template'') 3
        \<lparr>verification = Some (VBool True), combineToken = Some (Symbol 0 ''template'')\<rparr>,
      Lit ''ab'',
      Seg ''x'' None 1 \<lparr>verification = None, combineToken = None\<rparr>,
      Seg [] (Some ''template'') 9
        \<lparr>verification = None, combineToken = Some (Symbol 0 ''template'')\<rparr>])"
    by (simp add: createMappings_def pushArrays_def)
  have t: "tokenOf \<lparr>sourceOffsets = [3, 9], generatedOffsets = [0, 3], lengths = [0, 0],
      data = \<lparr>verification = Some (VBool True), combineToken = Some (Symbol 0 ''template'')\<rparr>\<rparr> = Some (Symbol 0 ''template'')"
    by simp
  show ?thesis
    using h representative_data [OF h t] by simp
qed

section \<open>Boundaries: proofs\<close>

text \<open>
  C3, as the code has it. The open form yields one zero-length fragment at \<open>start\<close>
  whose data is \<open>m\<close> with the token set, and returns the token and a closer. The token is
  the symbol made by this call, which none of the earlier calls made. The closer, given
  an end offset, produces a zero-length fragment of the same source at that offset whose
  data holds the same token and nothing else: it has no \<open>verification\<close>, whatever \<open>m\<close>
  has.
\<close>

theorem boundary_closer:
  "\<exists>b. generateBoundary source start' (OpenForm m) made =
          ([Seg [] (Some source) start' (m\<lparr>combineToken := Some (token b)\<rparr>)], Some b, Suc made)
       \<and> token b = Symbol made source
       \<and> token b \<notin> (\<lambda>p. Symbol (fst p) (snd p)) ` ({..<made} \<times> UNIV)
       \<and> endFn b offset =
           Seg [] (Some source) offset \<lparr>verification = None, combineToken = Some (token b)\<rparr>"
  by (auto simp: Let_def)

theorem boundary_closer_witness:
  "endFn (the (fst (snd (generateBoundary ''template'' 3 (OpenForm codeFeatures_none) 4)))) 7 =
     Seg [] (Some ''template'') 7
       \<lparr>verification = None, combineToken = Some (Symbol 4 ''template'')\<rparr>"
  using boundary_closer [of "''template''" 3 codeFeatures_none 4 7]
  by (simp add: Let_def)

text \<open>
  C3 as stated fails: opened with \<open>codeFeatures.verification\<close>, the closer's fragment
  does not carry that metadata; its data is the token alone.
\<close>

theorem boundary_closer_metadata_counterexample:
  "endFn (the (fst (snd (generateBoundary ''template'' 3 (OpenForm codeFeatures_verification) 0)))) 7 =
     Seg [] (Some ''template'') 7 \<lparr>verification = None, combineToken = Some (Symbol 0 ''template'')\<rparr>
   \<and> endFn (the (fst (snd (generateBoundary ''template'' 3 (OpenForm codeFeatures_verification) 0)))) 7 \<noteq>
     Seg [] (Some ''template'') 7 (codeFeatures_verification\<lparr>combineToken := Some (Symbol 0 ''template'')\<rparr>)"
  by (simp add: codeFeatures_verification_def Let_def)

section \<open>The parser and the remap: proofs\<close>

lemma parseLines_append:
  "parseLines resolve st (xs @ ys) =
     (case parseLines resolve st xs of Inl e \<Rightarrow> Inl e | Inr s \<Rightarrow> parseLines resolve s ys)"
  by (induction xs arbitrary: st) (simp_all split: sum.splits)

lemma parseLine_header:
  assumes "diagnosticRE row \<noteq> None"
  shows "\<exists>d. parseLine resolve st row =
           Inr (st\<lparr>diagnostics := diagnostics st @ [d], cursor := 1\<rparr>)
         \<and> end' d = \<lparr>line = 0, column = 0\<rparr>"
  using assms by (auto simp: parseLine_def)

lemma parseLine_snippet:
  assumes "diagnosticRE row = None" and "cursor st mod 2 = 0" and "row \<noteq> []"
  shows "parseLine resolve st row =
           Inr (st\<lparr>padding := int (length (takeWhile (\<lambda>c. c \<noteq> CHR '' '') row)),
                   cursor := cursor st + 1\<rparr>)"
  using assms by (simp add: parseLine_def)

lemma parseLine_underline:
  assumes "diagnosticRE row = None" and "cursor st mod 2 = 1" and "CHR ''~'' \<in> set row"
    and "diagnostics st \<noteq> []"
  shows "parseLine resolve st row =
           Inr (st\<lparr>diagnostics := butlast (diagnostics st) @
                     [(last (diagnostics st))
                        \<lparr>end' := \<lparr>line = line (start (last (diagnostics st)))
                                          + (cursor st - 3) div 2,
                                  column = lastIndexOf CHR ''~'' row + 1 - padding st\<rparr>\<rparr>],
                   cursor := cursor st + 1\<rparr>)"
  using assms by (simp add: parseLine_def split: list.splits)

lemma parseLine_other:
  assumes "diagnosticRE row = None"
    and "\<not> (cursor st mod 2 = 0 \<and> row \<noteq> [])"
    and "\<not> (cursor st mod 2 = 1 \<and> CHR ''~'' \<in> set row)"
  shows "parseLine resolve st row = Inr (st\<lparr>cursor := cursor st + 1\<rparr>)"
  using assms by (auto simp: parseLine_def)

lemma parseLine_cases:
  assumes "parseLine resolve st row = Inr st'"
  shows "(\<exists>d. st' = st\<lparr>diagnostics := diagnostics st @ [d], cursor := 1\<rparr>
               \<and> diagnosticRE row \<noteq> None)
       \<or> (diagnosticRE row = None \<and> diagnostics st' = diagnostics st
            \<and> cursor st' = cursor st + 1)
       \<or> (diagnosticRE row = None \<and> diagnostics st \<noteq> [] \<and> cursor st' = cursor st + 1
            \<and> padding st' = padding st
            \<and> (\<exists>d. diagnostics st' = butlast (diagnostics st) @ [d]))"
  using assms
  by (auto simp: parseLine_def split: option.splits if_splits list.splits)


lemma parseLine_quiet:
  assumes "diagnosticRE row = None" and "cursor st mod 2 = 0 \<or> CHR ''~'' \<notin> set row"
  shows "\<exists>s1. parseLine resolve st row = Inr s1 \<and> diagnostics s1 = diagnostics st
             \<and> cursor s1 = cursor st + 1"
  using assms by (auto simp: parseLine_def)

lemma parseLines_quiet:
  "noUnderline (cursor st) blk \<Longrightarrow>
   \<exists>s'. parseLines resolve st blk = Inr s' \<and> diagnostics s' = diagnostics st"
proof (induction blk arbitrary: st)
  case Nil
  then show ?case by simp
next
  case (Cons row rest)
  from Cons.prems obtain s1 where s1: "parseLine resolve st row = Inr s1"
      "diagnostics s1 = diagnostics st" "cursor s1 = cursor st + 1"
    using parseLine_quiet [of row st resolve] by auto
  from Cons.prems have "noUnderline (cursor s1) rest" by (simp add: s1(3))
  then obtain s' where "parseLines resolve s1 rest = Inr s'" "diagnostics s' = diagnostics s1"
    using Cons.IH by blast
  then show ?case by (simp add: s1)
qed

lemma parseLine_keeps:
  assumes "parseLine resolve st row = Inr st'"
  shows "length (diagnostics st) \<le> length (diagnostics st')
       \<and> (\<forall>n. n + 1 < length (diagnostics st) \<longrightarrow> diagnostics st' ! n = diagnostics st ! n)"
  using parseLine_cases [OF assms]
  by (auto simp: nth_append nth_butlast)

lemma parseLines_keeps:
  "parseLines resolve st ls = Inr st' \<Longrightarrow>
   length (diagnostics st) \<le> length (diagnostics st')
   \<and> (\<forall>n. n + 1 < length (diagnostics st) \<longrightarrow> diagnostics st' ! n = diagnostics st ! n)"
proof (induction ls arbitrary: st)
  case Nil
  then show ?case by simp
next
  case (Cons row rest)
  from Cons.prems obtain s1 where s1: "parseLine resolve st row = Inr s1"
      and r: "parseLines resolve s1 rest = Inr st'"
    by (auto split: sum.splits)
  have a: "length (diagnostics st) \<le> length (diagnostics s1)"
    and b: "\<And>n. n + 1 < length (diagnostics st) \<Longrightarrow> diagnostics s1 ! n = diagnostics st ! n"
    using parseLine_keeps [OF s1] by auto
  have c: "length (diagnostics s1) \<le> length (diagnostics st')"
    and d: "\<And>n. n + 1 < length (diagnostics s1) \<Longrightarrow> diagnostics st' ! n = diagnostics s1 ! n"
    using Cons.IH [OF r] by auto
  show ?case
  proof (intro conjI allI impI)
    show "length (diagnostics st) \<le> length (diagnostics st')" using a c by simp
  next
    fix n assume n: "n + 1 < length (diagnostics st)"
    then have "n + 1 < length (diagnostics s1)" using a by simp
    then have "diagnostics st' ! n = diagnostics s1 ! n" by (rule d)
    then show "diagnostics st' ! n = diagnostics st ! n" using b [OF n] by simp
  qed
qed

lemma toSourceLocation_NaN: "toSourceLocation ms NaN accept = []"
  by (auto simp: toSourceLocation_def)

lemma remap_sentinel:
  assumes "end' d = \<lparr>line = 0, column = 0\<rparr>"
  shows "remap sf d = None"
proof -
  have "getVirtualOffset sf (line (end' d)) (column (end' d)) = NaN"
    by (simp add: assms getVirtualOffset_def createOffsetGetter_def)
  then show ?thesis
    by (simp add: remap_def toSourceLocation_NaN firstOffset_def falsy_def Let_def)
qed

lemma remapDiagnostics_append:
  "remapDiagnostics sf (xs @ ys) = remapDiagnostics sf xs @ remapDiagnostics sf ys"
  by (induction xs) (simp_all split: option.splits)

lemma parseLine_padding:
  assumes "parseLine resolve st row = Inr s1"
  shows "cursor s1 = (if diagnosticRE row \<noteq> None then 1 else cursor st + 1)
       \<and> padding s1 =
           (if diagnosticRE row = None \<and> cursor st mod 2 = 0 \<and> row \<noteq> []
            then int (length (takeWhile (\<lambda>c. c \<noteq> CHR '' '') row)) else padding st)"
  using assms
  by (auto simp: parseLine_def split: option.splits if_splits list.splits)

lemma parseLines_padding:
  "parseLines resolve st ls = Inr st' \<Longrightarrow> padding st = gutterWidth r \<Longrightarrow>
   padding st' = gutterWidth (snippetScan (cursor st) r ls)"
proof (induction ls arbitrary: st r)
  case Nil
  then show ?case by simp
next
  case (Cons row rest)
  from Cons.prems(1) obtain s1 where s1: "parseLine resolve st row = Inr s1"
      and rest: "parseLines resolve s1 rest = Inr st'"
    by (auto split: sum.splits)
  have ih: "\<And>q. padding s1 = gutterWidth q \<Longrightarrow>
              padding st' = gutterWidth (snippetScan (cursor s1) q rest)"
    by (rule Cons.IH [OF rest])
  have c: "cursor s1 = (if diagnosticRE row \<noteq> None then 1 else cursor st + 1)"
    and p: "padding s1 =
           (if diagnosticRE row = None \<and> cursor st mod 2 = 0 \<and> row \<noteq> []
            then int (length (takeWhile (\<lambda>c. c \<noteq> CHR '' '') row)) else padding st)"
    using parseLine_padding [OF s1] by blast+
  show ?case
  proof (cases "diagnosticRE row = None \<and> cursor st mod 2 = 0 \<and> row \<noteq> []")
    case True
    have "padding s1 = gutterWidth (Some row)"
      using True by (simp add: p gutterWidth_def)
    then have "padding st' = gutterWidth (snippetScan (cursor s1) (Some row) rest)"
      by (rule ih)
    then show ?thesis using True by (simp add: c)
  next
    case False
    have "padding s1 = gutterWidth r"
      using False Cons.prems(2) by (simp only: p if_False)
    then have "padding st' = gutterWidth (snippetScan (cursor s1) r rest)"
      by (rule ih)
    then show ?thesis using False by (auto simp: c)
  qed
qed

lemma lastIndexOf_last:
  assumes "c \<in> set row"
  shows "0 \<le> lastIndexOf c row \<and> lastIndexOf c row < int (length row)
       \<and> row ! nat (lastIndexOf c row) = c
       \<and> c \<notin> set (drop (nat (lastIndexOf c row) + 1) row)"
proof -
  let ?r = "rev row"
  let ?k = "length (takeWhile (\<lambda>d. d \<noteq> c) ?r)"
  have cr: "c \<in> set ?r" using assms by simp
  have "takeWhile (\<lambda>d. d \<noteq> c) ?r \<noteq> ?r"
    using cr by (simp add: takeWhile_eq_all_conv)
  then have "?k \<noteq> length ?r"
  proof (rule contrapos_nn)
    assume e: "?k = length ?r"
    have "takeWhile (\<lambda>d. d \<noteq> c) ?r = take ?k ?r" by (rule takeWhile_eq_take)
    also have "\<dots> = ?r" by (simp only: e take_all order_refl)
    finally show "takeWhile (\<lambda>d. d \<noteq> c) ?r = ?r" .
  qed
  then have k: "?k < length ?r"
    using length_takeWhile_le [of "\<lambda>d. d \<noteq> c" ?r] by simp
  have rk: "?r ! ?k = c"
    using k nth_length_takeWhile [of "\<lambda>d. d \<noteq> c" ?r] by simp
  have li: "lastIndexOf c row = int (length row - 1 - ?k)"
    using k assms by (simp add: lastIndexOf_def)
  have ni: "nat (lastIndexOf c row) = length row - 1 - ?k"
    by (simp only: li nat_int)
  have nth: "row ! (length row - 1 - ?k) = c"
    using k rk by (simp add: rev_nth)
  have "length row - 1 - ?k + 1 = length row - ?k"
    using k by simp
  then have "drop (length row - 1 - ?k + 1) row = rev (take ?k ?r)"
    by (simp only: take_rev rev_rev_ident length_rev)
  also have "take ?k ?r = takeWhile (\<lambda>d. d \<noteq> c) ?r"
    by (rule takeWhile_eq_take [symmetric])
  finally have "set (drop (length row - 1 - ?k + 1) row) = set (takeWhile (\<lambda>d. d \<noteq> c) ?r)"
    by simp
  then have notin: "c \<notin> set (drop (length row - 1 - ?k + 1) row)"
    by (auto dest: set_takeWhileD)
  have "0 \<le> lastIndexOf c row" by (simp only: li of_nat_0_le_iff)
  moreover have "lastIndexOf c row < int (length row)" using k by (simp add: li)
  moreover have "row ! nat (lastIndexOf c row) = c" using nth by (simp only: ni)
  moreover have "c \<notin> set (drop (nat (lastIndexOf c row) + 1) row)"
    using notin unfolding ni .
  ultimately show ?thesis by blast
qed


lemma parseLine_header_full:
  assumes "diagnosticRE row = Some (p, ln, col, cd, msg)"
  shows "parseLine resolve st row =
           Inr (st\<lparr>diagnostics := diagnostics st @
                     [\<lparr>path = resolve p,
                       start = \<lparr>line = Number ln, column = Number col\<rparr>,
                       end' = \<lparr>line = 0, column = 0\<rparr>,
                       code = Number cd,
                       message = msg\<rparr>],
                   cursor := 1\<rparr>)"
  using assms by (simp add: parseLine_def)

text \<open>
  C7. Malformed-underline discard path: let \<open>h\<close> be a header row, followed up to the
  next header (or the end of the report) by rows \<open>blk\<close> none of which is a recognised
  tilde underline row. Then the diagnostic parsed from \<open>h\<close> stands in the parser's list with
  its end position at the sentinel (line 0, column 0); at remap time it is unmappable
  (\<open>remap\<close> removes it, for every source file), and the remapped list of a file is the
  same with it as without it.
\<close>

theorem sentinel_end_discarded:
  assumes hdr: "diagnosticRE h = Some (p, ln, col, cd, msg)"
    and blk: "noUnderline 1 blk"
    and rest: "rest = [] \<or> diagnosticRE (hd rest) \<noteq> None"
    and run: "parseLines resolve initialState (pre @ [h] @ blk @ rest) = Inr st'"
  shows "\<exists>st. parseLines resolve initialState pre = Inr st
       \<and> length (diagnostics st) < length (diagnostics st')
       \<and> diagnostics st' ! length (diagnostics st) =
           \<lparr>path = resolve p,
             start = \<lparr>line = Number ln, column = Number col\<rparr>,
             end' = \<lparr>line = 0, column = 0\<rparr>,
             code = Number cd,
             message = msg\<rparr>
       \<and> remap sf (diagnostics st' ! length (diagnostics st)) = None
       \<and> remapDiagnostics sf (ds1 @ [diagnostics st' ! length (diagnostics st)] @ ds2) =
           remapDiagnostics sf (ds1 @ ds2)"
proof -
  let ?d = "\<lparr>path = resolve p,
             start = \<lparr>line = Number ln, column = Number col\<rparr>,
             end' = \<lparr>line = 0, column = 0\<rparr>,
             code = Number cd,
             message = msg\<rparr>"
  from run obtain st where st: "parseLines resolve initialState pre = Inr st"
      and r1: "parseLines resolve st ([h] @ blk @ rest) = Inr st'"
    by (auto simp: parseLines_append split: sum.splits)
  let ?n = "length (diagnostics st)"
  let ?s1 = "st\<lparr>diagnostics := diagnostics st @ [?d], cursor := 1\<rparr>"
  have h1: "parseLine resolve st h = Inr ?s1"
    using hdr by (rule parseLine_header_full)
  from r1 have r2: "parseLines resolve ?s1 (blk @ rest) = Inr st'"
    by (simp add: h1)
  have "noUnderline (cursor ?s1) blk" using blk by simp
  then obtain s2 where s2: "parseLines resolve ?s1 blk = Inr s2"
      and d2: "diagnostics s2 = diagnostics ?s1"
    using parseLines_quiet by blast
  from r2 have r3: "parseLines resolve s2 rest = Inr st'"
    by (simp add: parseLines_append s2)
  have d2': "diagnostics s2 = diagnostics st @ [?d]" using d2 by simp
  have main: "?n < length (diagnostics st') \<and> diagnostics st' ! ?n = ?d"
  proof (cases rest)
    case Nil
    then have "st' = s2" using r3 by simp
    then show ?thesis by (simp add: d2')
  next
    case (Cons h2 rs)
    then have "diagnosticRE h2 \<noteq> None" using rest by simp
    then obtain d' where s3: "parseLine resolve s2 h2 =
        Inr (s2\<lparr>diagnostics := diagnostics s2 @ [d'], cursor := 1\<rparr>)"
      using parseLine_header [of h2 resolve s2] by blast
    let ?s3 = "s2\<lparr>diagnostics := diagnostics s2 @ [d'], cursor := 1\<rparr>"
    from r3 have r4: "parseLines resolve ?s3 rs = Inr st'"
      by (simp add: Cons s3)
    have d3: "diagnostics ?s3 = diagnostics st @ [?d, d']" by (simp add: d2')
    have k1: "length (diagnostics ?s3) \<le> length (diagnostics st')"
      and k2: "\<And>n. n + 1 < length (diagnostics ?s3) \<Longrightarrow>
                 diagnostics st' ! n = diagnostics ?s3 ! n"
      using parseLines_keeps [OF r4] by blast+
    have "?n + 1 < length (diagnostics ?s3)" by (simp add: d2')
    then have "diagnostics st' ! ?n = diagnostics ?s3 ! ?n" by (rule k2)
    also have "\<dots> = ?d" by (simp add: d2')
    finally have a: "diagnostics st' ! ?n = ?d" .
    have "?n < length (diagnostics ?s3)" by (simp add: d2')
    then have "?n < length (diagnostics st')" using k1 by simp
    then show ?thesis using a by simp
  qed
  have rm: "remap sf ?d = None" by (rule remap_sentinel) simp
  have "remapDiagnostics sf (ds1 @ [?d] @ ds2) = remapDiagnostics sf (ds1 @ ds2)"
    by (simp add: remapDiagnostics_append rm)
  then show ?thesis using st main rm by simp
qed

text \<open>
  C5. Parser end-position formula: when a row \<open>u\<close> that is not a header and has a tilde
  is reached at an odd cursor after a header (the list of diagnostics is not empty), the
  end position of the latest diagnostic is set to line
  \<open>startLine + (cursor - 3) / 2\<close> (the division is exact) and column
  \<open>i + 1 - padding\<close>, where \<open>i\<close> is the 0-based index of the last tilde of \<open>u\<close> and
  \<open>padding\<close> is the length up to the first space of the most recent snippet row; nothing
  else of the diagnostics changes.
\<close>

theorem underline_end_position:
  assumes pre: "parseLines resolve initialState pre = Inr st"
    and hd: "diagnostics st \<noteq> []"
    and odd: "cursor st mod 2 = 1"
    and nohdr: "diagnosticRE u = None"
    and tilde: "CHR ''~'' \<in> set u"
  shows "\<exists>st' i. parseLines resolve initialState (pre @ [u]) = Inr st'
        \<and> diagnostics st' = butlast (diagnostics st) @
             [(last (diagnostics st))
                \<lparr>end' := \<lparr>line = line (start (last (diagnostics st))) + (cursor st - 3) div 2,
                          column = int i + 1 - gutterWidth (recentSnippet pre)\<rparr>\<rparr>]
        \<and> 2 * ((cursor st - 3) div 2) = cursor st - 3
        \<and> i < length u \<and> u ! i = CHR ''~'' \<and> CHR ''~'' \<notin> set (drop (i + 1) u)
        \<and> padding st = gutterWidth (recentSnippet pre)"
proof -
  let ?i = "nat (lastIndexOf CHR ''~'' u)"
  have li: "0 \<le> lastIndexOf CHR ''~'' u" "lastIndexOf CHR ''~'' u < int (length u)"
      "u ! ?i = CHR ''~''" "CHR ''~'' \<notin> set (drop (?i + 1) u)"
    using lastIndexOf_last [OF tilde] by blast+
  have ii: "int ?i = lastIndexOf CHR ''~'' u" using li(1) by simp
  have il: "?i < length u" using li(1,2) by simp
  have "padding initialState = gutterWidth None"
    by (simp add: initialState_def gutterWidth_def)
  then have "padding st = gutterWidth (snippetScan (cursor initialState) None pre)"
    using parseLines_padding [OF pre] by simp
  then have pad: "padding st = gutterWidth (recentSnippet pre)"
    by (simp add: recentSnippet_def initialState_def)
  let ?st' = "st\<lparr>diagnostics := butlast (diagnostics st) @
                     [(last (diagnostics st))
                        \<lparr>end' := \<lparr>line = line (start (last (diagnostics st)))
                                          + (cursor st - 3) div 2,
                                  column = lastIndexOf CHR ''~'' u + 1 - padding st\<rparr>\<rparr>],
                   cursor := cursor st + 1\<rparr>"
  have step: "parseLine resolve st u = Inr ?st'"
    using nohdr odd tilde hd by (rule parseLine_underline)
  have run: "parseLines resolve initialState (pre @ [u]) = Inr ?st'"
    by (simp add: parseLines_append pre step)
  have ex: "2 * ((cursor st - 3) div 2) = cursor st - 3"
    using odd by presburger
  have "parseLines resolve initialState (pre @ [u]) = Inr ?st'
        \<and> diagnostics ?st' = butlast (diagnostics st) @
             [(last (diagnostics st))
                \<lparr>end' := \<lparr>line = line (start (last (diagnostics st))) + (cursor st - 3) div 2,
                          column = int ?i + 1 - gutterWidth (recentSnippet pre)\<rparr>\<rparr>]
        \<and> 2 * ((cursor st - 3) div 2) = cursor st - 3
        \<and> ?i < length u \<and> u ! ?i = CHR ''~'' \<and> CHR ''~'' \<notin> set (drop (?i + 1) u)
        \<and> padding st = gutterWidth (recentSnippet pre)"
    using run ex il li(1,3,4) pad by simp
  then show ?thesis by blast
qed


theorem underline_end_position_witness:
  "parseLines (\<lambda>p. p) initialState
     ([''/a/b.ts:1:13 - error TS2339: Property c'', [], ''1 const x = a.b.c;''] @ [''              ~~'']) =
   Inr \<lparr>diagnostics = [\<lparr>path = ''/a/b.ts'', start = \<lparr>line = 1, column = 13\<rparr>,
        end' = \<lparr>line = 1, column = 15\<rparr>, code = 2339, message = ''Property c''\<rparr>],
        cursor = 4, padding = 1\<rparr>"
proof -
  let ?st = "\<lparr>diagnostics = [\<lparr>path = ''/a/b.ts'', start = \<lparr>line = 1, column = 13\<rparr>,
        end' = \<lparr>line = 0, column = 0\<rparr>, code = 2339, message = ''Property c''\<rparr>],
        cursor = 3, padding = 1\<rparr>"
  have pre: "parseLines (\<lambda>p. p) initialState
     [''/a/b.ts:1:13 - error TS2339: Property c'', [], ''1 const x = a.b.c;''] = Inr ?st"
    by (simp add: parseLine_def diagnosticRE_def afterPath_def digits_def isDigit_def lineTerminator_def Number_def initialState_def)
  have hd: "diagnostics ?st \<noteq> []" by simp
  have odd: "cursor ?st mod 2 = 1" by simp
  have nohdr: "diagnosticRE ''              ~~'' = None"
    by (simp add: diagnosticRE_def afterPath_def lineTerminator_def)
  have tilde: "CHR ''~'' \<in> set ''              ~~''" by simp
  show ?thesis
    using underline_end_position [OF pre hd odd nohdr tilde]
    by (simp add: parseLine_def diagnosticRE_def afterPath_def digits_def isDigit_def lineTerminator_def Number_def initialState_def lastIndexOf_def)
qed

theorem sentinel_end_discarded_witness:
  "parseLines (\<lambda>p. p) initialState ([] @ [''/a/b.ts:1:13 - error TS2339: Property c''] @ [[]] @ []) =
     Inr \<lparr>diagnostics = [\<lparr>path = ''/a/b.ts'', start = \<lparr>line = 1, column = 13\<rparr>,
        end' = \<lparr>line = 0, column = 0\<rparr>, code = 2339, message = ''Property c''\<rparr>],
          cursor = 2, padding = 0\<rparr>
   \<and> firstOffset (toSourceLocation
         (mapper \<lparr>sourcePath = ''/p/App.vue'', sourceText = ''0123456789.b'',
        virtualText = Some ''const x = a.b.c;'',
        mapper = [\<lparr>sourceOffsets = [10], generatedOffsets = [12], lengths = [2],
                   data = codeFeatures_verification\<rparr>]\<rparr>)
         (getVirtualOffset \<lparr>sourcePath = ''/p/App.vue'', sourceText = ''0123456789.b'',
        virtualText = Some ''const x = a.b.c;'',
        mapper = [\<lparr>sourceOffsets = [10], generatedOffsets = [12], lengths = [2],
                   data = codeFeatures_verification\<rparr>]\<rparr> 1 13)
         (\<lambda>info. isVerificationEnabled info 2339)) = Some 10
   \<and> remap \<lparr>sourcePath = ''/p/App.vue'', sourceText = ''0123456789.b'',
        virtualText = Some ''const x = a.b.c;'',
        mapper = [\<lparr>sourceOffsets = [10], generatedOffsets = [12], lengths = [2],
                   data = codeFeatures_verification\<rparr>]\<rparr>
       \<lparr>path = ''/a/b.ts'', start = \<lparr>line = 1, column = 13\<rparr>,
        end' = \<lparr>line = 0, column = 0\<rparr>, code = 2339, message = ''Property c''\<rparr> = None"
proof -
  let ?st' = "\<lparr>diagnostics = [\<lparr>path = ''/a/b.ts'', start = \<lparr>line = 1, column = 13\<rparr>,
        end' = \<lparr>line = 0, column = 0\<rparr>, code = 2339, message = ''Property c''\<rparr>],
          cursor = 2, padding = 0\<rparr>"
  have hdr: "diagnosticRE ''/a/b.ts:1:13 - error TS2339: Property c'' =
      Some (''/a/b.ts'', ''1'', ''13'', ''2339'', ''Property c'')"
    by (simp add: diagnosticRE_def afterPath_def digits_def isDigit_def lineTerminator_def)
  have blk: "noUnderline 1 [[]]"
    by (simp add: diagnosticRE_def)
  have rest: "([] :: string list) = [] \<or> diagnosticRE (hd []) \<noteq> None" by simp
  have run: "parseLines (\<lambda>p. p) initialState ([] @ [''/a/b.ts:1:13 - error TS2339: Property c''] @ [[]] @ []) = Inr ?st'"
    by (simp add: parseLine_def diagnosticRE_def afterPath_def digits_def isDigit_def lineTerminator_def Number_def initialState_def)
  show ?thesis
    using sentinel_end_discarded [OF hdr blk rest run,
        of "\<lparr>sourcePath = ''/p/App.vue'', sourceText = ''0123456789.b'',
        virtualText = Some ''const x = a.b.c;'',
        mapper = [\<lparr>sourceOffsets = [10], generatedOffsets = [12], lengths = [2],
                   data = codeFeatures_verification\<rparr>]\<rparr>" "[]" "[]"]
    by (simp add: parseLine_def diagnosticRE_def afterPath_def digits_def isDigit_def lineTerminator_def Number_def initialState_def toSourceLocation_def getVirtualOffset_def
        createOffsetGetter_def lineOffsets_def firstOffset_def isVerificationEnabled_def
        codeFeatures_verification_def)
qed

section \<open>Suppression, remap and parse at particular inputs\<close>

text \<open>
  C1. \<open>isVerificationEnabled\<close> calls \<open>shouldReport\<close> with the code as its only
  argument, and the policies of \<open>codeFeatures\<close> read the code from their second
  parameter. So \<open>doNotReportTs2339AndTs2551\<close> is enabled for code 2339, and the
  backward query filtered with code 2339 yields the source offset of an entry with that
  policy. Called with the code in second place, the same policy rejects 2339.
\<close>

theorem suppressed_code_accepted:
  "isVerificationEnabled codeFeatures_doNotReportTs2339AndTs2551 2339
   \<and> map fst (toSourceLocation
        [\<lparr>sourceOffsets = [10], generatedOffsets = [11], lengths = [2],
          data = codeFeatures_doNotReportTs2339AndTs2551\<rparr>]
        (Off 11) (\<lambda>info. isVerificationEnabled info 2339)) = [10]
   \<and> (\<exists>shouldReport.
        verification codeFeatures_doNotReportTs2339AndTs2551 = Some (VObject (Some shouldReport))
        \<and> \<not> shouldReport JUndefined (JNum 2339)
        \<and> shouldReport (JNum 2339) JUndefined)"
  by (simp add: isVerificationEnabled_def codeFeatures_doNotReportTs2339AndTs2551_def
      toSourceLocation_def digitsOf.simps)

text \<open>
  C2. A diagnostic whose start maps to source offset 0 is discarded although both
  backward queries yield an accepted offset (\<open>0\<close> and \<open>1\<close>): \<open>!left\<close> is true on
  \<open>0\<close>. The same file with every source offset moved up by one keeps the diagnostic.
\<close>

theorem zero_source_offset_discarded:
  "map fst (toSourceLocation
      (createMappings [Seg ''a'' None 0 codeFeatures_verification,
                       Seg ''b'' None 1 codeFeatures_verification])
      (createOffsetGetter ''ab'' 1 1) (\<lambda>info. isVerificationEnabled info 2304)) = [0]
   \<and> map fst (toSourceLocation
      (createMappings [Seg ''a'' None 0 codeFeatures_verification,
                       Seg ''b'' None 1 codeFeatures_verification])
      (createOffsetGetter ''ab'' 1 2) (\<lambda>info. isVerificationEnabled info 2304)) = [1]
   \<and> remap \<lparr>sourcePath = ''/p/App.vue'', sourceText = ''ab'', virtualText = Some ''ab'',
            mapper = createMappings [Seg ''a'' None 0 codeFeatures_verification,
                                     Seg ''b'' None 1 codeFeatures_verification]\<rparr>
        \<lparr>path = ''/c/App.vue.ts'', start = \<lparr>line = 1, column = 1\<rparr>,
          end' = \<lparr>line = 1, column = 2\<rparr>, code = 2304, message = ''m''\<rparr> = None
   \<and> remap \<lparr>sourcePath = ''/p/App.vue'', sourceText = ''xab'', virtualText = Some ''ab'',
            mapper = createMappings [Seg ''a'' None 1 codeFeatures_verification,
                                     Seg ''b'' None 2 codeFeatures_verification]\<rparr>
        \<lparr>path = ''/c/App.vue.ts'', start = \<lparr>line = 1, column = 1\<rparr>,
          end' = \<lparr>line = 1, column = 2\<rparr>, code = 2304, message = ''m''\<rparr> =
       Some \<lparr>path = ''/c/App.vue.ts'', start = \<lparr>line = 1, column = 2\<rparr>,
          end' = \<lparr>line = 1, column = 3\<rparr>, code = 2304, message = ''m''\<rparr>"
  by (simp add: createMappings_def codeFeatures_verification_def toSourceLocation_def
      createOffsetGetter_def lineOffsets_def isVerificationEnabled_def remap_def
      getVirtualOffset_def firstOffset_def falsy_def getSourceLineAndColumn_def
      createLineAndColumnGetter_def)

text \<open>
  C6. On the two lines \<open>x\<close> and \<open>~\<close> the parser reaches an underline line at an odd
  cursor with no diagnostic yet, and throws.
\<close>

theorem tilde_before_header_throws:
  "parseDiagnostics resolve [CHR ''x'', CHR 0x0A, CHR ''~''] = Inl TypeError"
  by (simp add: parseDiagnostics_def trim_def isWhiteSpace_def parseLine_def diagnosticRE_def
      afterPath_def initialState_def lineTerminator_def)

end
